theory Spec2Isabelle
  imports Complex_Main "HOL-Library.Multiset" "HOL-Library.Product_Lexorder"
begin

section \<open>Personal Finance Tracker: the transaction store of financetracker.c\<close>

text \<open>
  The program keeps its records in a global array \<^verbatim>\<open>txs[MAX_TRANSACTIONS]\<close> of which the
  first \<^verbatim>\<open>txCount\<close> entries are live. The model keeps exactly the live prefix, as a list:
  \<^verbatim>\<open>txCount\<close> is its length, \<^verbatim>\<open>txs[i]\<close> its \<open>i\<close>-th element.

  Amounts are C \<^verbatim>\<open>double\<close>s. The model computes with exact rationals (every finite
  double is one): rounding of sums, infinities and NaN are outside the embedding.
  The \<^verbatim>\<open>int\<close> fields are only compared and reduced modulo 4, 100 and 400 by the program,
  never added to, so they are modelled as mathematical integers.
\<close>

subsection \<open>Constants and types\<close>

definition MAX_TRANSACTIONS :: nat where
  "MAX_TRANSACTIONS = 2000"

definition STR_LEN :: nat where
  "STR_LEN = 64"

definition NOTE_LEN :: nat where
  "NOTE_LEN = 128"

datatype TxType = INCOME | EXPENSE

text \<open>The value of the enumeration constant, as \<^verbatim>\<open>%d\<close> prints it.\<close>

fun int_of_TxType :: "TxType \<Rightarrow> int" where
  "int_of_TxType INCOME = 0"
| "int_of_TxType EXPENSE = 1"

record Transaction =
  tx_y :: int
  tx_m :: int
  tx_d :: int
  tx_type :: TxType
  tx_category :: string
  tx_amount :: rat
  tx_note :: string

type_synonym store = "Transaction list"

subsection \<open>C strings and line input\<close>

text \<open>A character buffer read as a C string ends at its first NUL byte.\<close>

definition c_str :: "string \<Rightarrow> string" where
  "c_str buf = takeWhile (\<lambda>c. c \<noteq> CHR 0x00) buf"

text \<open>\<^verbatim>\<open>strncpy(dst, src, n)\<close> into a zero-initialised destination longer than \<open>n\<close>.\<close>

definition strncpy :: "nat \<Rightarrow> string \<Rightarrow> string" where
  "strncpy n src = take n src"

text \<open>
  \<^verbatim>\<open>fgets(buf, n, f)\<close> stores at most \<open>n - 1\<close> characters and stops after a newline.
  \<open>fgets_chars k s\<close> takes at most \<open>k\<close> characters from the stream \<open>s\<close> and returns them with
  the rest of the stream; \<open>fgets\<close> is \<^verbatim>\<open>NULL\<close> (here \<open>None\<close>) at end of file.
\<close>

fun fgets_chars :: "nat \<Rightarrow> string \<Rightarrow> string \<times> string" where
  "fgets_chars 0 s = ([], s)"
| "fgets_chars (Suc k) [] = ([], [])"
| "fgets_chars (Suc k) (c # cs) =
     (if c = CHR 0x0A then ([c], cs)
      else (case fgets_chars k cs of (l, r) \<Rightarrow> (c # l, r)))"

definition fgets :: "nat \<Rightarrow> string \<Rightarrow> (string \<times> string) option" where
  "fgets n s = (if s = [] then None else Some (fgets_chars (n - 1) s))"



subsection \<open>Calendar validation\<close>

definition mdays :: "bool \<Rightarrow> int list" where
  "mdays leap = [0, 31, if leap then 29 else 28, 31, 30, 31, 30, 31, 31, 30, 31, 30, 31]"

definition valid_date :: "int \<Rightarrow> int \<Rightarrow> int \<Rightarrow> bool" where
  "valid_date yy mm dd =
     (if yy < 1900 \<or> yy > 3000 then False
      else if mm < 1 \<or> mm > 12 then False
      else let leap = ((yy mod 4 = 0 \<and> yy mod 100 \<noteq> 0) \<or> yy mod 400 = 0)
           in if dd < 1 \<or> dd > mdays leap ! nat mm then False else True)"

subsection \<open>Adding a transaction\<close>

text \<open>
  \<^verbatim>\<open>add_transaction\<close> prints a message and returns early on each failure; the model returns
  the failure: \<open>CapacityExceeded\<close> for "Storage full.", \<open>InvalidDate\<close> for "Invalid date.",
  \<open>InvalidAmount\<close> for "Amount must be positive.". Its arguments are the values which
  \<^verbatim>\<open>read_int\<close>, \<^verbatim>\<open>read_line\<close> and \<^verbatim>\<open>read_double\<close> deliver, in the order the code asks for them.
\<close>

datatype add_error = CapacityExceeded | InvalidDate | InvalidAmount

definition replace_bar :: "string \<Rightarrow> string" where
  "replace_bar s = map (\<lambda>c. if c = CHR ''|'' then CHR ''/'' else c) s"

definition add_transaction ::
  "store \<Rightarrow> int \<Rightarrow> int \<Rightarrow> int \<Rightarrow> TxType \<Rightarrow> string \<Rightarrow> rat \<Rightarrow> string \<Rightarrow> add_error + store" where
  "add_transaction txs yy mm dd t category0 amount note0 =
     (if length txs \<ge> MAX_TRANSACTIONS then Inl CapacityExceeded
      else if \<not> valid_date yy mm dd then Inl InvalidDate
      else let category1 = (if category0 = [] then (if t = INCOME then ''Salary'' else ''Misc'')
                            else category0)
           in if amount \<le> 0 then Inl InvalidAmount
              else let note = replace_bar note0;
                       category = replace_bar category1
                   in Inr (txs @ [\<lparr>tx_y = yy, tx_m = mm, tx_d = dd, tx_type = t,
                                   tx_category = strncpy (STR_LEN - 1) category,
                                   tx_amount = amount,
                                   tx_note = strncpy (NOTE_LEN - 1) note\<rparr>]))"


subsection \<open>Deleting by index\<close>

text \<open>
  \<^verbatim>\<open>read_int\<close> confines the index to \<open>0 .. txCount - 1\<close>; the loop shifts the tail left by
  one and the count drops by one.
\<close>

definition delete_by_index :: "nat \<Rightarrow> store \<Rightarrow> store" where
  "delete_by_index idx txs =
     (if txs = [] then txs
      else butlast (foldl (\<lambda>a i. a[i := a ! (i + 1)]) txs [idx ..< length txs - 1]))"

subsection \<open>Summary totals\<close>



subsection \<open>Printing: the conversions of \<^verbatim>\<open>fprintf\<close> used by \<^verbatim>\<open>save_to_file\<close>\<close>

definition digit_char :: "nat \<Rightarrow> char" where
  "digit_char n = char_of (48 + n)"

fun show_nat :: "nat \<Rightarrow> string" where
  "show_nat n = (if n < 10 then [digit_char n] else show_nat (n div 10) @ [digit_char (n mod 10)])"

text \<open>\<^verbatim>\<open>%d\<close>.\<close>

definition printf_d :: "int \<Rightarrow> string" where
  "printf_d i = (if i < 0 then CHR ''-'' # show_nat (nat (- i)) else show_nat (nat i))"

text \<open>
  \<^verbatim>\<open>%.2f\<close>: the value rounded to the nearest hundredth, a tie going to the even
  neighbour (the default rounding mode), then the integer part, a point and two digits.
\<close>

definition round_half_even :: "rat \<Rightarrow> int" where
  "round_half_even q =
     (let f = \<lfloor>q\<rfloor>; r = q - of_int f
      in if r < 1 / 2 then f else if r > 1 / 2 then f + 1 else if even f then f else f + 1)"

definition printf_2f :: "rat \<Rightarrow> string" where
  "printf_2f x =
     (let h = nat (round_half_even (\<bar>x\<bar> * 100));
          body = show_nat (h div 100) @ [CHR ''.'', digit_char (h mod 100 div 10),
                                        digit_char (h mod 10)]
      in if x < 0 then CHR ''-'' # body else body)"

text \<open>One line of the data file: \<^verbatim>\<open>"%d|%d|%d|%d|%s|%.2f|%s\n"\<close>.\<close>

definition fprintf_tx :: "Transaction \<Rightarrow> string" where
  "fprintf_tx t =
     printf_d (tx_y t) @ ''|'' @ printf_d (tx_m t) @ ''|'' @ printf_d (tx_d t) @ ''|'' @
     printf_d (int_of_TxType (tx_type t)) @ ''|'' @ tx_category t @ ''|'' @
     printf_2f (tx_amount t) @ ''|'' @ tx_note t @ [CHR 0x0A]"


subsection \<open>Scanning: the conversions of \<^verbatim>\<open>sscanf\<close> used by \<^verbatim>\<open>load_from_file\<close>\<close>

definition isspace :: "char \<Rightarrow> bool" where
  "isspace c = (c = CHR '' '' \<or> c = CHR 0x09 \<or> c = CHR 0x0A \<or> c = CHR 0x0B \<or> c = CHR 0x0C
                \<or> c = CHR 0x0D)"

definition isdigit :: "char \<Rightarrow> bool" where
  "isdigit c = (48 \<le> (of_char c :: nat) \<and> (of_char c :: nat) \<le> 57)"

definition digit_val :: "char \<Rightarrow> nat" where
  "digit_val c = of_char c - 48"

definition digits_val :: "string \<Rightarrow> nat" where
  "digits_val ds = foldl (\<lambda>a c. 10 * a + digit_val c) 0 ds"

text \<open>An optional sign: whether it was a minus, and the input after it.\<close>

definition scan_sign :: "string \<Rightarrow> bool \<times> string" where
  "scan_sign s =
     (case s of
        [] \<Rightarrow> (False, s)
      | c # cs \<Rightarrow> if c = CHR ''-'' then (True, cs) else if c = CHR ''+'' then (False, cs)
                  else (False, s))"

text \<open>
  \<^verbatim>\<open>%d\<close>: white space is skipped, then an optional sign and at least one decimal digit.
  A numeral that does not fit an \<^verbatim>\<open>int\<close> has no defined result in C; the model
  delivers its mathematical value.
\<close>

definition scan_d :: "string \<Rightarrow> (int \<times> string) option" where
  "scan_d s =
     (case scan_sign (dropWhile isspace s) of
        (neg, s2) \<Rightarrow>
          let ds = takeWhile isdigit s2
          in if ds = [] then None
             else Some (if neg then - int (digits_val ds) else int (digits_val ds),
                        dropWhile isdigit s2))"

text \<open>
  \<^verbatim>\<open>%lf\<close>, for decimal numerals: white space, an optional sign, digits with an
  optional point and fraction (at least one digit in all), and an optional exponent that
  is taken only when it is complete. The hexadecimal, \<^verbatim>\<open>inf\<close> and \<^verbatim>\<open>nan\<close> forms of
  \<^verbatim>\<open>strtod\<close> have no rational value and are not modelled (they fail to match here).
\<close>

definition scan_exponent :: "string \<Rightarrow> int \<times> string" where
  "scan_exponent s =
     (case s of
        [] \<Rightarrow> (0, s)
      | c # cs \<Rightarrow>
          if c = CHR ''e'' \<or> c = CHR ''E'' then
            (case scan_sign cs of
               (neg, s2) \<Rightarrow>
                 let ds = takeWhile isdigit s2
                 in if ds = [] then (0, s)
                    else (if neg then - int (digits_val ds) else int (digits_val ds),
                          dropWhile isdigit s2))
          else (0, s))"

definition scale10 :: "rat \<Rightarrow> int \<Rightarrow> rat" where
  "scale10 x e = (if e \<ge> 0 then x * 10 ^ nat e else x / 10 ^ nat (- e))"

definition scan_lf :: "string \<Rightarrow> (rat \<times> string) option" where
  "scan_lf s =
     (case scan_sign (dropWhile isspace s) of
        (neg, s2) \<Rightarrow>
          let ip = takeWhile isdigit s2;
              s3 = dropWhile isdigit s2;
              point = (s3 \<noteq> [] \<and> hd s3 = CHR ''.'');
              fp = (if point then takeWhile isdigit (tl s3) else []);
              s4 = (if point then dropWhile isdigit (tl s3) else s3)
          in if ip = [] \<and> fp = [] then None
             else let mant = of_nat (digits_val ip) + of_nat (digits_val fp) / 10 ^ length fp
                  in (case scan_exponent s4 of
                        (e, s5) \<Rightarrow> Some (scale10 (if neg then - mant else mant) e, s5)))"

text \<open>
  \<^verbatim>\<open>%63[^|]\<close> and \<^verbatim>\<open>%127[^\n]\<close>: at most \<open>width\<close> characters of the scanset, at least one,
  and no white space is skipped.
\<close>

definition scan_set :: "nat \<Rightarrow> (char \<Rightarrow> bool) \<Rightarrow> string \<Rightarrow> (string \<times> string) option" where
  "scan_set width member s =
     (let tok = takeWhile member (take width s)
      in if tok = [] then None else Some (tok, drop (length tok) s))"

text \<open>A literal character of the format.\<close>

definition scan_lit :: "char \<Rightarrow> string \<Rightarrow> string option" where
  "scan_lit c s = (case s of [] \<Rightarrow> None | x # xs \<Rightarrow> if x = c then Some xs else None)"

text \<open>
  The result of
  \<^verbatim>\<open>sscanf(line, "%d|%d|%d|%d|%63[^|]|%lf|%127[^\n]", &t.y, &t.m, &t.d, &typeInt, category, &amount, note)\<close>:
  the return value \<open>matched\<close> and the seven targets, which keep their zero initial values
  where nothing was assigned. The return value is \<^verbatim>\<open>EOF\<close>, that is \<open>-1\<close>, when the input
  ends before the first conversion.
\<close>

record scanned =
  matched :: int
  s_y :: int
  s_m :: int
  s_d :: int
  s_typeInt :: int
  s_category :: string
  s_amount :: rat
  s_note :: string

definition scanned0 :: scanned where
  "scanned0 = \<lparr>matched = 0, s_y = 0, s_m = 0, s_d = 0, s_typeInt = 0, s_category = [],
               s_amount = 0, s_note = []\<rparr>"

definition not_bar :: "char \<Rightarrow> bool" where
  "not_bar c = (c \<noteq> CHR ''|'')"

definition not_newline :: "char \<Rightarrow> bool" where
  "not_newline c = (c \<noteq> CHR 0x0A)"

definition sscanf_note :: "scanned \<Rightarrow> string \<Rightarrow> scanned" where
  "sscanf_note r s =
     (case scan_lit CHR ''|'' s of None \<Rightarrow> r | Some s' \<Rightarrow>
      (case scan_set 127 not_newline s' of None \<Rightarrow> r | Some (v, rest) \<Rightarrow>
        r\<lparr>matched := 7, s_note := v\<rparr>))"

definition sscanf_amount :: "scanned \<Rightarrow> string \<Rightarrow> scanned" where
  "sscanf_amount r s =
     (case scan_lit CHR ''|'' s of None \<Rightarrow> r | Some s' \<Rightarrow>
      (case scan_lf s' of None \<Rightarrow> r | Some (v, rest) \<Rightarrow>
        sscanf_note (r\<lparr>matched := 6, s_amount := v\<rparr>) rest))"

definition sscanf_category :: "scanned \<Rightarrow> string \<Rightarrow> scanned" where
  "sscanf_category r s =
     (case scan_lit CHR ''|'' s of None \<Rightarrow> r | Some s' \<Rightarrow>
      (case scan_set 63 not_bar s' of None \<Rightarrow> r | Some (v, rest) \<Rightarrow>
        sscanf_amount (r\<lparr>matched := 5, s_category := v\<rparr>) rest))"

definition sscanf_type :: "scanned \<Rightarrow> string \<Rightarrow> scanned" where
  "sscanf_type r s =
     (case scan_lit CHR ''|'' s of None \<Rightarrow> r | Some s' \<Rightarrow>
      (case scan_d s' of None \<Rightarrow> r | Some (v, rest) \<Rightarrow>
        sscanf_category (r\<lparr>matched := 4, s_typeInt := v\<rparr>) rest))"

definition sscanf_d :: "scanned \<Rightarrow> string \<Rightarrow> scanned" where
  "sscanf_d r s =
     (case scan_lit CHR ''|'' s of None \<Rightarrow> r | Some s' \<Rightarrow>
      (case scan_d s' of None \<Rightarrow> r | Some (v, rest) \<Rightarrow>
        sscanf_type (r\<lparr>matched := 3, s_d := v\<rparr>) rest))"

definition sscanf_m :: "scanned \<Rightarrow> string \<Rightarrow> scanned" where
  "sscanf_m r s =
     (case scan_lit CHR ''|'' s of None \<Rightarrow> r | Some s' \<Rightarrow>
      (case scan_d s' of None \<Rightarrow> r | Some (v, rest) \<Rightarrow>
        sscanf_d (r\<lparr>matched := 2, s_m := v\<rparr>) rest))"

definition sscanf_line :: "string \<Rightarrow> scanned" where
  "sscanf_line s =
     (if dropWhile isspace s = [] then scanned0\<lparr>matched := - 1\<rparr>
      else (case scan_d s of None \<Rightarrow> scanned0 | Some (v, rest) \<Rightarrow>
        sscanf_m (scanned0\<lparr>matched := 1, s_y := v\<rparr>) rest))"

subsection \<open>Loading\<close>

text \<open>
  The body of the \<^verbatim>\<open>while\<close> loop of \<^verbatim>\<open>load_from_file\<close> for one buffer \<open>line\<close> filled by
  \<^verbatim>\<open>fgets\<close>: the record that is stored, or \<open>None\<close> when the line is skipped.
\<close>

definition load_line :: "string \<Rightarrow> Transaction option" where
  "load_line line =
     (let r = sscanf_line (c_str line)
      in if matched r \<ge> 6 then
           let t = \<lparr>tx_y = s_y r, tx_m = s_m r, tx_d = s_d r,
                    tx_type = (if s_typeInt r = 1 then EXPENSE else INCOME),
                    tx_category = strncpy (STR_LEN - 1) (s_category r),
                    tx_amount = s_amount r,
                    tx_note = (if matched r = 7 then strncpy (NOTE_LEN - 1) (s_note r) else [])\<rparr>
           in if valid_date (tx_y t) (tx_m t) (tx_d t) \<and> tx_amount t \<ge> 0 then Some t else None
         else None)"

text \<open>\<^verbatim>\<open>if (n < MAX_TRANSACTIONS) txs[n++] = t;\<close> on the records loaded so far.\<close>

definition store_loaded :: "Transaction list \<Rightarrow> Transaction option \<Rightarrow> Transaction list" where
  "store_loaded acc r =
     (case r of None \<Rightarrow> acc
      | Some t \<Rightarrow> if length acc < MAX_TRANSACTIONS then acc @ [t] else acc)"

text \<open>The loop \<^verbatim>\<open>while (fgets(line, sizeof(line), f))\<close> over the rest of the file.\<close>

function load_loop :: "string \<Rightarrow> Transaction list \<Rightarrow> Transaction list" where
  "load_loop f acc =
     (case fgets 512 f of
        None \<Rightarrow> acc
      | Some (line, rest) \<Rightarrow> load_loop rest (store_loaded acc (load_line line)))"
  by pat_completeness auto
termination
proof (relation "measure (\<lambda>(f, acc). length f)")
  show "wf (measure (\<lambda>(f, acc). length f))" by simp
next
  fix f :: string and acc :: "Transaction list" and x2 line rest
  assume "fgets 512 f = Some x2" and "(line, rest) = x2"
  then have "f \<noteq> []" and rest: "rest = snd (fgets_chars 511 f)"
    by (auto simp: fgets_def split: if_splits)
  then obtain c cs where f: "f = c # cs"
    by (cases f) auto
  have le: "length (snd (fgets_chars k s)) \<le> length s" for k s
    by (induction k s rule: fgets_chars.induct) (auto split: prod.splits)
  have n: "(511 :: nat) = Suc 510"
    by simp
  have "length (snd (fgets_chars 511 (c # cs))) < length (c # cs)"
    using le [of 510 cs] by (simp only: n fgets_chars.simps) (auto split: prod.splits)
  with rest f have "length rest < length f"
    by simp
  then show "((rest, store_loaded acc (load_line line)), (f, acc)) \<in> measure (\<lambda>(f, acc). length f)"
    by simp
qed

text \<open>
  \<^verbatim>\<open>load_from_file\<close>: the return value and the store afterwards. The file is \<open>None\<close>
  when \<^verbatim>\<open>fopen(fname, "r")\<close> fails, and its contents otherwise.
\<close>

definition load_from_file :: "string option \<Rightarrow> store \<Rightarrow> int \<times> store" where
  "load_from_file file txs =
     (case file of None \<Rightarrow> (0, txs) | Some f \<Rightarrow> (1, load_loop f []))"

subsection \<open>Sorting\<close>

definition cmp_date :: "Transaction \<Rightarrow> Transaction \<Rightarrow> int" where
  "cmp_date a b =
     (if tx_y a \<noteq> tx_y b then (if tx_y a < tx_y b then - 1 else 1)
      else if tx_m a \<noteq> tx_m b then (if tx_m a < tx_m b then - 1 else 1)
      else if tx_d a \<noteq> tx_d b then (if tx_d a < tx_d b then - 1 else 1)
      else 0)"

definition cmp_amount_desc :: "Transaction \<Rightarrow> Transaction \<Rightarrow> int" where
  "cmp_amount_desc a b =
     (if tx_amount a < tx_amount b then 1
      else if tx_amount a > tx_amount b then - 1
      else 0)"

text \<open>
  \<^verbatim>\<open>sort_menu\<close> sorts with \<^verbatim>\<open>qsort\<close> of the C library, whose code is not part of the
  program. What the program fixes is the call; what the library promises for it (ISO C,
  7.22.5.2) is that the array holds the same elements afterwards, in ascending order of
  the comparison function, and that the order of two elements that compare as equal is
  unspecified. \<open>qsort_result cmp xs ys\<close> says that \<open>ys\<close> is a result the call may leave
  for the array \<open>xs\<close>.
\<close>

definition qsort_result :: "('a \<Rightarrow> 'a \<Rightarrow> int) \<Rightarrow> 'a list \<Rightarrow> 'a list \<Rightarrow> bool" where
  "qsort_result cmp xs ys = (mset ys = mset xs \<and> sorted_wrt (\<lambda>a b. cmp a b \<le> 0) ys)"

text \<open>
  \<^verbatim>\<open>sort_menu\<close> with the choice \<open>c\<close> that \<^verbatim>\<open>read_int\<close> returned (1 or 2): the stores it may
  leave. An empty store is reported and left alone.
\<close>

definition sort_menu :: "int \<Rightarrow> store \<Rightarrow> store \<Rightarrow> bool" where
  "sort_menu c txs txs' =
     (if txs = [] then txs' = txs
      else if c = 1 then qsort_result cmp_date txs txs'
      else qsort_result cmp_amount_desc txs txs')"




subsection \<open>Monthly expense chart\<close>









subsection \<open>Lines of the data file\<close>

text \<open>The buffers which the loop of \<^verbatim>\<open>load_from_file\<close> gets from \<^verbatim>\<open>fgets\<close>, in order.\<close>

function fgets_lines :: "string \<Rightarrow> string list" where
  "fgets_lines f =
     (case fgets 512 f of None \<Rightarrow> [] | Some (line, rest) \<Rightarrow> line # fgets_lines rest)"
  by pat_completeness auto
termination
proof (relation "measure length")
  show "wf (measure length)" by simp
next
  fix f :: string and x2 line rest
  assume "fgets 512 f = Some x2" and "(line, rest) = x2"
  then have "f \<noteq> []" and rest: "rest = snd (fgets_chars 511 f)"
    by (auto simp: fgets_def split: if_splits)
  then obtain c cs where f: "f = c # cs"
    by (cases f) auto
  have le: "length (snd (fgets_chars k s)) \<le> length s" for k s
    by (induction k s rule: fgets_chars.induct) (auto split: prod.splits)
  have n: "(511 :: nat) = Suc 510"
    by simp
  have "length (snd (fgets_chars 511 (c # cs))) < length (c # cs)"
    using le [of 510 cs] by (simp only: n fgets_chars.simps) (auto split: prod.splits)
  with rest f show "(rest, f) \<in> measure length"
    by simp
qed

text \<open>
  What makes a stored record come back from its own line. \<open>entry_ok\<close>: the date is
  valid, the category is a non-empty C string of at most 63 characters without the
  delimiter or a newline, the note a C string of at most 127 characters without a
  newline, the amount not negative. \<open>whole_cents\<close>: the amount is a whole number of
  hundredths, so \<^verbatim>\<open>%.2f\<close> prints it exactly. \<open>fits_line\<close>: the line fits the 512-byte
  buffer of \<^verbatim>\<open>load_from_file\<close>.
\<close>

definition entry_ok :: "Transaction \<Rightarrow> bool" where
  "entry_ok t =
     (valid_date (tx_y t) (tx_m t) (tx_d t)
      \<and> tx_category t \<noteq> [] \<and> length (tx_category t) \<le> 63
      \<and> (\<forall>c \<in> set (tx_category t). c \<noteq> CHR ''|'' \<and> c \<noteq> CHR 0x0A \<and> c \<noteq> CHR 0x00)
      \<and> length (tx_note t) \<le> 127
      \<and> (\<forall>c \<in> set (tx_note t). c \<noteq> CHR 0x0A \<and> c \<noteq> CHR 0x00)
      \<and> tx_amount t \<ge> 0)"

definition whole_cents :: "rat \<Rightarrow> bool" where
  "whole_cents x = (x * 100 = of_int \<lfloor>x * 100\<rfloor>)"

definition fits_line :: "Transaction \<Rightarrow> bool" where
  "fits_line t = (length (fprintf_tx t) \<le> 511)"

subsection \<open>The delimiter predicate and the example records\<close>

text \<open>\<open>no_bar_store\<close>: no category and no note in the store contains the delimiter.\<close>

definition no_bar_text :: "Transaction \<Rightarrow> bool" where
  "no_bar_text t = (CHR ''|'' \<notin> set (tx_category t) \<and> CHR ''|'' \<notin> set (tx_note t))"

definition no_bar_store :: "store \<Rightarrow> bool" where
  "no_bar_store txs = (\<forall>t \<in> set txs. no_bar_text t)"





section \<open>Properties\<close>

subsection \<open>What \<^verbatim>\<open>%d\<close> prints, \<^verbatim>\<open>%d\<close> reads back\<close>

lemma of_char_digit_char: "n < 10 \<Longrightarrow> (of_char (digit_char n) :: nat) = 48 + n"
  by (simp add: digit_char_def)

lemma isdigit_digit_char: "n < 10 \<Longrightarrow> isdigit (digit_char n)"
  by (simp add: isdigit_def of_char_digit_char)

lemma digit_val_digit_char: "n < 10 \<Longrightarrow> digit_val (digit_char n) = n"
  by (simp add: digit_val_def of_char_digit_char)

lemma isdigit_plain:
  "isdigit c \<Longrightarrow> \<not> isspace c \<and> c \<noteq> CHR ''-'' \<and> c \<noteq> CHR ''+'' \<and> c \<noteq> CHR ''|''
     \<and> c \<noteq> CHR ''.'' \<and> c \<noteq> CHR 0x0A \<and> c \<noteq> CHR 0x00"
  by (auto simp: isdigit_def isspace_def)

lemma not_isdigit_marks:
  "\<not> isdigit CHR ''|''" "\<not> isdigit CHR ''.''" "\<not> isdigit CHR 0x0A" "\<not> isdigit CHR ''-''"
  by (simp_all add: isdigit_def)

declare show_nat.simps [simp del]

lemma show_nat_digits: "c \<in> set (show_nat n) \<Longrightarrow> isdigit c"
proof (induction n arbitrary: c rule: show_nat.induct)
  case (1 n)
  show ?case
  proof (cases "n < 10")
    case True
    with "1.prems" show ?thesis
      by (simp add: show_nat.simps [of n] isdigit_digit_char)
  next
    case False
    with "1.prems" have "c \<in> set (show_nat (n div 10)) \<or> c = digit_char (n mod 10)"
      by (auto simp: show_nat.simps [of n])
    with False "1.IH" show ?thesis
      by (auto simp: isdigit_digit_char)
  qed
qed

lemma show_nat_nonempty: "show_nat n \<noteq> []"
  by (simp add: show_nat.simps [of n])

lemma digits_val_snoc: "digits_val (ds @ [c]) = 10 * digits_val ds + digit_val c"
  by (simp add: digits_val_def)

lemma digits_val_show_nat: "digits_val (show_nat n) = n"
proof (induction n rule: show_nat.induct)
  case (1 n)
  show ?case
  proof (cases "n < 10")
    case True
    then show ?thesis
      by (simp add: show_nat.simps [of n] digits_val_def digit_val_digit_char)
  next
    case False
    with "1.IH" show ?thesis
      by (simp add: show_nat.simps [of n] digits_val_snoc digit_val_digit_char)
  qed
qed

lemma takeWhile_digits:
  "\<not> isdigit c \<Longrightarrow> takeWhile isdigit (show_nat n @ c # rest) = show_nat n"
  by (simp add: show_nat_digits)

lemma dropWhile_digits:
  "\<not> isdigit c \<Longrightarrow> dropWhile isdigit (show_nat n @ c # rest) = c # rest"
  by (simp add: show_nat_digits)

lemma show_nat_Cons: "\<exists>c cs. show_nat n = c # cs \<and> isdigit c"
proof -
  obtain c cs where "show_nat n = c # cs"
    using show_nat_nonempty [of n] by (cases "show_nat n") auto
  moreover from this have "isdigit c"
    using show_nat_digits [of c n] by simp
  ultimately show ?thesis by blast
qed

lemma scan_d_show_nat:
  assumes "\<not> isdigit c"
  shows "scan_d (show_nat n @ c # rest) = Some (int n, c # rest)"
proof -
  obtain x xs where x: "show_nat n = x # xs" "isdigit x"
    using show_nat_Cons by blast
  then have plain: "\<not> isspace x" "x \<noteq> CHR ''-''" "x \<noteq> CHR ''+''"
    using isdigit_plain by blast+
  have "dropWhile isspace (show_nat n @ c # rest) = show_nat n @ c # rest"
    using x plain by simp
  moreover have "scan_sign (show_nat n @ c # rest) = (False, show_nat n @ c # rest)"
    using x plain by (simp add: scan_sign_def)
  ultimately show ?thesis
    using assms
    by (simp add: scan_d_def takeWhile_digits dropWhile_digits show_nat_nonempty
        digits_val_show_nat)
qed

lemma scan_d_printf_d:
  assumes "\<not> isdigit c"
  shows "scan_d (printf_d i @ c # rest) = Some (i, c # rest)"
proof (cases "i < 0")
  case False
  then show ?thesis
    using scan_d_show_nat [OF assms, of "nat i" rest] by (simp add: printf_d_def)
next
  case True
  have "\<not> isspace CHR ''-''" by (simp add: isspace_def)
  then have "scan_d (CHR ''-'' # show_nat (nat (- i)) @ c # rest)
      = Some (- int (nat (- i)), c # rest)"
    using assms
    by (simp add: scan_d_def scan_sign_def takeWhile_digits dropWhile_digits show_nat_nonempty
        digits_val_show_nat)
  with True show ?thesis by (simp add: printf_d_def)
qed

subsection \<open>What \<^verbatim>\<open>%.2f\<close> prints and \<^verbatim>\<open>%lf\<close> reads back; scansets\<close>

lemma round_half_even_of_nat: "round_half_even (of_nat h) = int h"
  by (simp add: round_half_even_def)

lemma printf_2f_cents:
  assumes "x = of_nat h / 100"
  shows "printf_2f x = show_nat (h div 100) @ [CHR ''.'', digit_char (h mod 100 div 10),
                                              digit_char (h mod 10)]"
proof -
  have "\<bar>x\<bar> * 100 = of_nat h" "\<not> x < 0"
    using assms by simp_all
  then show ?thesis
    by (simp add: printf_2f_def round_half_even_of_nat)
qed

lemma scan_exponent_other:
  "c \<noteq> CHR ''e'' \<Longrightarrow> c \<noteq> CHR ''E'' \<Longrightarrow> scan_exponent (c # rest) = (0, c # rest)"
  by (simp add: scan_exponent_def)

lemma digits_val_two: "digits_val [a, b] = 10 * digit_val a + digit_val b"
  by (simp add: digits_val_def)

lemma cents_split: "(of_nat (h div 100) :: rat) + of_nat (10 * (h mod 100 div 10) + h mod 10) / 100 = of_nat h / 100"
proof -
  have "h mod 100 mod 10 = h mod 10"
    by (simp add: mod_mod_cancel)
  moreover have "10 * (h mod 100 div 10) + h mod 100 mod 10 = h mod 100"
    by (rule mult_div_mod_eq)
  ultimately have "10 * (h mod 100 div 10) + h mod 10 = h mod 100"
    by simp
  moreover have "(of_nat (h div 100) :: rat) * 100 + of_nat (h mod 100) = of_nat h"
    by (metis div_mult_mod_eq of_nat_add of_nat_mult of_nat_numeral)
  ultimately show ?thesis
    by (simp add: field_simps)
qed

lemma scan_lf_cents:
  assumes "\<not> isdigit c" "c \<noteq> CHR ''e''" "c \<noteq> CHR ''E''"
  shows "scan_lf (show_nat (h div 100) @ [CHR ''.'', digit_char (h mod 100 div 10),
                                          digit_char (h mod 10)] @ c # rest)
         = Some (of_nat h / 100, c # rest)"
proof -
  let ?d1 = "digit_char (h mod 100 div 10)" and ?d2 = "digit_char (h mod 10)"
  let ?tail = "CHR ''.'' # ?d1 # ?d2 # c # rest"
  let ?s = "show_nat (h div 100) @ ?tail"
  have d: "isdigit ?d1" "isdigit ?d2"
    by (simp_all add: isdigit_digit_char)
  obtain x xs where x: "show_nat (h div 100) = x # xs" "isdigit x"
    using show_nat_Cons by blast
  then have plain: "\<not> isspace x" "x \<noteq> CHR ''-''" "x \<noteq> CHR ''+''"
    using isdigit_plain by blast+
  have sp: "dropWhile isspace ?s = ?s"
    using x plain by simp
  have sg: "scan_sign ?s = (False, ?s)"
    using x plain by (simp add: scan_sign_def)
  have ip: "takeWhile isdigit ?s = show_nat (h div 100)" "dropWhile isdigit ?s = ?tail"
    using takeWhile_digits [of "CHR ''.''"] dropWhile_digits [of "CHR ''.''"]
    by (simp_all add: not_isdigit_marks)
  have fp: "takeWhile isdigit (?d1 # ?d2 # c # rest) = [?d1, ?d2]"
    "dropWhile isdigit (?d1 # ?d2 # c # rest) = c # rest"
    using d assms(1) by simp_all
  have val: "(of_nat (digits_val (show_nat (h div 100))) :: rat)
      + of_nat (digits_val [?d1, ?d2]) / 100 = of_nat h / 100"
    using cents_split [of h]
    by (simp add: digits_val_show_nat digits_val_two digit_val_digit_char)
  have ex: "scan_exponent (c # rest) = (0, c # rest)"
    using assms(2,3) by (rule scan_exponent_other)
  have "scan_lf ?s = Some (scale10 (of_nat h / 100) 0, c # rest)"
    unfolding scan_lf_def sp sg
    by (simp add: ip fp ex val d assms(1) Let_def show_nat_nonempty)
  then show ?thesis
    by (simp add: scale10_def)
qed

lemma scan_lf_printf_2f:
  assumes "x = of_nat h / 100"
  shows "scan_lf (printf_2f x @ CHR ''|'' # rest) = Some (x, CHR ''|'' # rest)"
  using scan_lf_cents [of "CHR ''|''" h rest] assms
  by (simp add: printf_2f_cents [OF assms] not_isdigit_marks)

lemma takeWhile_take_stop:
  assumes "\<And>x. x \<in> set xs \<Longrightarrow> P x" "\<not> P y" "length xs \<le> n"
  shows "takeWhile P (take n (xs @ y # ys)) = xs"
proof -
  have "takeWhile P (take (n - length xs) (y # ys)) = []"
    using assms(2) by (cases "n - length xs") simp_all
  with assms(1,3) show ?thesis by simp
qed

lemma scan_set_stop:
  assumes "\<And>x. x \<in> set xs \<Longrightarrow> P x" "\<not> P y" "length xs \<le> n" "xs \<noteq> []"
  shows "scan_set n P (xs @ y # ys) = Some (xs, y # ys)"
proof -
  have tok: "takeWhile P (take n (xs @ y # ys)) = xs"
    using assms(1-3) by (rule takeWhile_take_stop)
  show ?thesis
    unfolding scan_set_def Let_def tok using assms(4) by simp
qed

lemma scan_set_nothing: "\<not> P y \<Longrightarrow> scan_set n P (y # ys) = None"
  by (cases n) (simp_all add: scan_set_def)

subsection \<open>A saved line read back\<close>

lemma whole_cents_nat:
  assumes "whole_cents x" "x \<ge> 0"
  shows "x = of_nat (nat \<lfloor>x * 100\<rfloor>) / 100"
proof -
  have "\<lfloor>x * 100\<rfloor> \<ge> 0" using assms(2) by simp
  then have "(of_nat (nat \<lfloor>x * 100\<rfloor>) :: rat) = of_int \<lfloor>x * 100\<rfloor>"
    by simp
  with assms(1) show ?thesis by (simp add: whole_cents_def)
qed

lemma printf_d_starts:
  "\<exists>c cs. printf_d i = c # cs \<and> \<not> isspace c \<and> c \<noteq> CHR 0x0A \<and> c \<noteq> CHR 0x00"
proof (cases "i < 0")
  case True
  then show ?thesis by (simp add: printf_d_def isspace_def)
next
  case False
  obtain c cs where "show_nat (nat i) = c # cs" "isdigit c"
    using show_nat_Cons by blast
  with False show ?thesis
    using isdigit_plain [of c] by (simp add: printf_d_def)
qed

lemma printf_d_chars:
  "c \<in> set (printf_d i) \<Longrightarrow> c \<noteq> CHR 0x0A \<and> c \<noteq> CHR 0x00"
  using isdigit_plain [of c] show_nat_digits [of c]
  by (auto simp: printf_d_def split: if_splits)

lemma printf_2f_chars:
  "c \<in> set (printf_2f x) \<Longrightarrow> c \<noteq> CHR 0x0A \<and> c \<noteq> CHR 0x00"
proof -
  assume "c \<in> set (printf_2f x)"
  then consider "c = CHR ''-''" | "c = CHR ''.''" | "isdigit c"
    using show_nat_digits [of c] isdigit_digit_char
    by (auto simp: printf_2f_def Let_def split: if_splits)
  then show ?thesis
    using isdigit_plain [of c] by cases auto
qed

lemma fprintf_tx_body:
  assumes "entry_ok t"
  shows "\<exists>body. fprintf_tx t = body @ [CHR 0x0A] \<and> CHR 0x0A \<notin> set body \<and> CHR 0x00 \<notin> set body"
proof -
  let ?body = "printf_d (tx_y t) @ ''|'' @ printf_d (tx_m t) @ ''|'' @ printf_d (tx_d t) @ ''|'' @
     printf_d (int_of_TxType (tx_type t)) @ ''|'' @ tx_category t @ ''|'' @
     printf_2f (tx_amount t) @ ''|'' @ tx_note t"
  have "fprintf_tx t = ?body @ [CHR 0x0A]"
    by (simp add: fprintf_tx_def)
  moreover have "CHR 0x0A \<notin> set ?body \<and> CHR 0x00 \<notin> set ?body"
    using assms printf_d_chars printf_2f_chars
    by (auto simp: entry_ok_def)
  ultimately show ?thesis by blast
qed

lemma c_str_fprintf_tx:
  assumes "entry_ok t"
  shows "c_str (fprintf_tx t) = fprintf_tx t"
proof -
  obtain body where "fprintf_tx t = body @ [CHR 0x0A]" "CHR 0x00 \<notin> set body"
    using fprintf_tx_body [OF assms] by blast
  then have "\<forall>c \<in> set (fprintf_tx t). c \<noteq> CHR 0x00"
    by auto
  then show ?thesis
    by (simp add: c_str_def)
qed


lemma sscanf_line_step:
  "sscanf_line (printf_d v @ CHR ''|'' # rest)
     = sscanf_m (scanned0\<lparr>matched := 1, s_y := v\<rparr>) (CHR ''|'' # rest)"
proof -
  obtain c cs where "printf_d v = c # cs" "\<not> isspace c"
    using printf_d_starts by blast
  then have ne: "dropWhile isspace (printf_d v @ CHR ''|'' # rest) \<noteq> []"
    by simp
  show ?thesis
    unfolding sscanf_line_def
    by (simp only: ne if_False) (simp add: scan_d_printf_d not_isdigit_marks)
qed

lemma sscanf_m_step:
  "sscanf_m r (CHR ''|'' # printf_d v @ CHR ''|'' # rest)
     = sscanf_d (r\<lparr>matched := 2, s_m := v\<rparr>) (CHR ''|'' # rest)"
  by (simp add: sscanf_m_def scan_lit_def scan_d_printf_d not_isdigit_marks)

lemma sscanf_d_step:
  "sscanf_d r (CHR ''|'' # printf_d v @ CHR ''|'' # rest)
     = sscanf_type (r\<lparr>matched := 3, s_d := v\<rparr>) (CHR ''|'' # rest)"
  by (simp add: sscanf_d_def scan_lit_def scan_d_printf_d not_isdigit_marks)

lemma sscanf_type_step:
  "sscanf_type r (CHR ''|'' # printf_d v @ CHR ''|'' # rest)
     = sscanf_category (r\<lparr>matched := 4, s_typeInt := v\<rparr>) (CHR ''|'' # rest)"
  by (simp add: sscanf_type_def scan_lit_def scan_d_printf_d not_isdigit_marks)

lemma sscanf_category_step:
  assumes "cat \<noteq> []" "length cat \<le> 63" "\<forall>c \<in> set cat. c \<noteq> CHR ''|''"
  shows "sscanf_category r (CHR ''|'' # cat @ CHR ''|'' # rest)
     = sscanf_amount (r\<lparr>matched := 5, s_category := cat\<rparr>) (CHR ''|'' # rest)"
proof -
  have "scan_set 63 not_bar (cat @ CHR ''|'' # rest) = Some (cat, CHR ''|'' # rest)"
    using assms by (intro scan_set_stop) (simp_all add: not_bar_def)
  then show ?thesis
    by (simp add: sscanf_category_def scan_lit_def)
qed

lemma sscanf_amount_step:
  assumes "x = of_nat h / 100"
  shows "sscanf_amount r (CHR ''|'' # printf_2f x @ CHR ''|'' # rest)
     = sscanf_note (r\<lparr>matched := 6, s_amount := x\<rparr>) (CHR ''|'' # rest)"
  by (simp add: sscanf_amount_def scan_lit_def scan_lf_printf_2f [OF assms])

lemma sscanf_note_step:
  assumes "length nt \<le> 127" "\<forall>c \<in> set nt. c \<noteq> CHR 0x0A"
  shows "sscanf_note r (CHR ''|'' # nt @ [CHR 0x0A])
     = (if nt = [] then r else r\<lparr>matched := 7, s_note := nt\<rparr>)"
proof (cases "nt = []")
  case True
  then show ?thesis
    by (simp add: sscanf_note_def scan_lit_def scan_set_nothing not_newline_def)
next
  case False
  have "scan_set 127 not_newline (nt @ CHR 0x0A # []) = Some (nt, CHR 0x0A # [])"
    using assms False by (intro scan_set_stop) (simp_all add: not_newline_def)
  with False show ?thesis
    by (simp add: sscanf_note_def scan_lit_def)
qed

lemma int_of_TxType_back: "(if int_of_TxType ty = 1 then EXPENSE else INCOME) = ty"
  by (cases ty) simp_all

lemma sscanf_line_fprintf_tx:
  assumes "entry_ok t" "whole_cents (tx_amount t)"
  shows "sscanf_line (fprintf_tx t) =
           \<lparr>matched = (if tx_note t = [] then 6 else 7), s_y = tx_y t, s_m = tx_m t, s_d = tx_d t,
            s_typeInt = int_of_TxType (tx_type t), s_category = tx_category t,
            s_amount = tx_amount t, s_note = tx_note t\<rparr>"
proof -
  have amt: "tx_amount t = of_nat (nat \<lfloor>tx_amount t * 100\<rfloor>) / 100"
    using assms by (intro whole_cents_nat) (simp_all add: entry_ok_def)
  have cat: "tx_category t \<noteq> []" "length (tx_category t) \<le> 63"
    "\<forall>c \<in> set (tx_category t). c \<noteq> CHR ''|''"
    using assms(1) by (simp_all add: entry_ok_def)
  have nt: "length (tx_note t) \<le> 127" "\<forall>c \<in> set (tx_note t). c \<noteq> CHR 0x0A"
    using assms(1) by (simp_all add: entry_ok_def)
  show ?thesis
    unfolding fprintf_tx_def
    by (simp add: sscanf_line_step sscanf_m_step sscanf_d_step sscanf_type_step
        sscanf_category_step [OF cat] sscanf_amount_step [OF amt] sscanf_note_step [OF nt]
        scanned0_def)
qed

lemma load_line_fprintf_tx:
  assumes "entry_ok t" "whole_cents (tx_amount t)"
  shows "load_line (fprintf_tx t) = Some t"
proof -
  have "valid_date (tx_y t) (tx_m t) (tx_d t)" "tx_amount t \<ge> 0"
    "length (tx_category t) \<le> 63" "length (tx_note t) \<le> 127"
    using assms(1) by (simp_all add: entry_ok_def)
  then show ?thesis
    by (simp add: load_line_def c_str_fprintf_tx [OF assms(1)] sscanf_line_fprintf_tx [OF assms]
        int_of_TxType_back strncpy_def STR_LEN_def NOTE_LEN_def)
qed

subsection \<open>A saved file read back\<close>

declare load_loop.simps [simp del] fgets_lines.simps [simp del]

lemma load_loop_lines:
  "load_loop f acc = foldl store_loaded acc (map load_line (fgets_lines f))"
proof (induction f acc rule: load_loop.induct)
  case (1 f acc)
  show ?case
  proof (cases "fgets 512 f")
    case None
    then show ?thesis
      by (simp add: load_loop.simps [of f] fgets_lines.simps [of f])
  next
    case (Some p)
    obtain line rest where p: "p = (line, rest)" by (cases p)
    have "load_loop f acc = load_loop rest (store_loaded acc (load_line line))"
      by (subst load_loop.simps) (simp add: Some p)
    also have "\<dots> = foldl store_loaded (store_loaded acc (load_line line))
                       (map load_line (fgets_lines rest))"
      using Some p by (intro "1.IH") simp_all
    also have "\<dots> = foldl store_loaded acc (map load_line (line # fgets_lines rest))"
      by simp
    also have "line # fgets_lines rest = fgets_lines f"
      by (subst (2) fgets_lines.simps) (simp add: Some p)
    finally show ?thesis .
  qed
qed

lemma foldl_store_loaded:
  "length acc \<le> MAX_TRANSACTIONS \<Longrightarrow>
   foldl store_loaded acc (map g ls) = take MAX_TRANSACTIONS (acc @ List.map_filter g ls)"
proof (induction ls arbitrary: acc)
  case Nil
  then show ?case by simp
next
  case (Cons l ls)
  show ?case
  proof (cases "g l")
    case None
    with Cons show ?thesis by (simp add: store_loaded_def)
  next
    case (Some t)
    show ?thesis
    proof (cases "length acc < MAX_TRANSACTIONS")
      case True
      then have "length (acc @ [t]) \<le> MAX_TRANSACTIONS" by simp
      from Cons.IH [OF this] Some True show ?thesis
        by (simp add: store_loaded_def)
    next
      case False
      with Cons.prems have "length acc = MAX_TRANSACTIONS" by simp
      with Cons.IH [of acc] Some show ?thesis
        by (simp add: store_loaded_def)
    qed
  qed
qed

lemma load_loop_accepted:
  "load_loop f [] = take MAX_TRANSACTIONS (List.map_filter load_line (fgets_lines f))"
  by (simp add: load_loop_lines foldl_store_loaded)






subsection \<open>What \<^verbatim>\<open>add_transaction\<close> stores\<close>

lemma add_transaction_Inr:
  assumes "add_transaction txs yy mm dd t c a n = Inr txs'"
  shows "\<exists>c' n'. txs' = txs @ [\<lparr>tx_y = yy, tx_m = mm, tx_d = dd, tx_type = t, tx_category = c',
                                 tx_amount = a, tx_note = n'\<rparr>]
           \<and> c' = strncpy (STR_LEN - 1) (replace_bar (if c = [] then (if t = INCOME then ''Salary'' else ''Misc'') else c))
           \<and> n' = strncpy (NOTE_LEN - 1) (replace_bar n)
           \<and> length txs < MAX_TRANSACTIONS \<and> valid_date yy mm dd \<and> a > 0"
  using assms by (auto simp: add_transaction_def Let_def split: if_splits)







lemma replace_bar_chars:
  "c \<in> set (replace_bar s) \<Longrightarrow> c \<noteq> CHR ''|'' \<and> (c \<in> set s \<or> c = CHR ''/'')"
  by (auto simp: replace_bar_def split: if_splits)



subsection \<open>Summary totals\<close>






subsection \<open>Loading when the file cannot be opened\<close>

text \<open>
  C9. When the data file cannot be opened for reading, \<^verbatim>\<open>load_from_file\<close> returns 0 and
  the store is what it was: the same transactions, the same count. Whenever the store
  after a load differs from the store before, the file was opened, the return value is 1
  and the store holds what the loop read from the file.
\<close>

theorem load_from_file_unopened:
  "load_from_file None txs = (0, txs)
   \<and> length (snd (load_from_file None txs)) = length txs
   \<and> (snd (load_from_file file txs) \<noteq> txs \<longrightarrow>
        (\<exists>f. file = Some f \<and> load_from_file file txs = (1, load_loop f [])))"
  by (cases "file") (simp_all add: load_from_file_def)

theorem load_from_file_unopened_witness:
  "snd (load_from_file (Some (''2025|1|15|1|Food|50.00|lunch'' @ [CHR 0x0A])) []) \<noteq> []
   \<and> load_from_file (Some (''2025|1|15|1|Food|50.00|lunch'' @ [CHR 0x0A])) []
       = (1, load_loop (''2025|1|15|1|Food|50.00|lunch'' @ [CHR 0x0A]) [])"
proof -
  have "snd (load_from_file (Some (''2025|1|15|1|Food|50.00|lunch'' @ [CHR 0x0A])) []) \<noteq> []"
    by code_simp
  with load_from_file_unopened [of "[]" "Some (''2025|1|15|1|Food|50.00|lunch'' @ [CHR 0x0A])"]
  show ?thesis by auto
qed

subsection \<open>Lines that fit the buffer of the loader\<close>

lemma show_nat_length: "0 < k \<Longrightarrow> n < 10 ^ k \<Longrightarrow> length (show_nat n) \<le> k"
proof (induction n arbitrary: k rule: show_nat.induct)
  case (1 n)
  show ?case
  proof (cases "n < 10")
    case True
    with "1.prems" show ?thesis
      by (simp add: show_nat.simps [of n])
  next
    case False
    obtain j where k: "k = Suc j"
      using "1.prems"(1) by (cases k) auto
    have "j \<noteq> 0"
      using False "1.prems"(2) k by (cases j) auto
    moreover have "n div 10 < 10 ^ j"
      using "1.prems"(2) k by (simp add: less_mult_imp_div_less mult.commute)
    ultimately have "length (show_nat (n div 10)) \<le> j"
      using "1.IH" [OF False, of j] by simp
    with False k show ?thesis
      by (simp add: show_nat.simps [of n])
  qed
qed

lemma printf_d_length:
  "0 \<le> i \<Longrightarrow> 0 < k \<Longrightarrow> i < 10 ^ k \<Longrightarrow> length (printf_d i) \<le> k"
proof -
  assume "0 \<le> i" "0 < k" "i < 10 ^ k"
  then have "nat i < 10 ^ k"
    by (simp add: nat_less_iff)
  with \<open>0 < k\<close> have "length (show_nat (nat i)) \<le> k"
    by (rule show_nat_length)
  with \<open>0 \<le> i\<close> show ?thesis
    by (simp add: printf_d_def)
qed

lemma valid_date_bounds:
  assumes "valid_date yy mm dd"
  shows "0 \<le> yy \<and> yy < 10 ^ 4 \<and> 0 \<le> mm \<and> mm < 10 ^ 2 \<and> 0 \<le> dd \<and> dd < 10 ^ 2"
proof -
  from assms have ym: "1900 \<le> yy" "yy \<le> 3000" "1 \<le> mm" "mm \<le> 12"
    by (auto simp: valid_date_def split: if_splits)
  let ?leap = "(yy mod 4 = 0 \<and> yy mod 100 \<noteq> 0) \<or> yy mod 400 = 0"
  from assms ym have d: "1 \<le> dd" "dd \<le> mdays ?leap ! nat mm"
    by (auto simp: valid_date_def Let_def split: if_splits)
  have "nat mm < length (mdays ?leap)"
    using ym by (simp add: mdays_def)
  then have "mdays ?leap ! nat mm \<in> set (mdays ?leap)"
    by (rule nth_mem)
  then have "mdays ?leap ! nat mm \<le> 31"
    unfolding mdays_def by auto
  with d ym show ?thesis by simp
qed

lemma cents_bound:
  assumes "(x :: rat) = of_nat h / 100" "x < 10 ^ k"
  shows "h div 100 < 10 ^ k"
proof -
  from assms have "of_nat h < (100 * 10 ^ k :: rat)"
    by simp
  then have "of_nat h < (of_nat (100 * 10 ^ k) :: rat)"
    by simp
  then have "h < 100 * 10 ^ k"
    by (simp only: of_nat_less_iff)
  then show ?thesis
    by (simp add: less_mult_imp_div_less mult.commute)
qed

lemma small_amount_fits_line:
  assumes "entry_ok t" "whole_cents (tx_amount t)" "tx_amount t < 10 ^ 300"
  shows "fits_line t"
proof -
  let ?h = "nat \<lfloor>tx_amount t * 100\<rfloor>"
  have nonneg: "0 \<le> tx_amount t"
    using assms(1) by (simp add: entry_ok_def)
  have amt: "tx_amount t = of_nat ?h / 100"
    using assms(2) nonneg by (rule whole_cents_nat)
  have "(0 :: nat) < 300"
    by simp
  moreover have "?h div 100 < 10 ^ 300"
    using amt assms(3) by (rule cents_bound)
  ultimately have "length (show_nat (?h div 100)) \<le> 300"
    by (rule show_nat_length)
  then have a: "length (printf_2f (tx_amount t)) \<le> 303"
    by (simp add: printf_2f_cents [OF amt])
  from assms(1) have "valid_date (tx_y t) (tx_m t) (tx_d t)"
    by (simp add: entry_ok_def)
  from valid_date_bounds [OF this]
  have y: "length (printf_d (tx_y t)) \<le> 4" and m: "length (printf_d (tx_m t)) \<le> 2"
    and d: "length (printf_d (tx_d t)) \<le> 2"
    by (simp_all add: printf_d_length)
  have k: "length (printf_d (int_of_TxType (tx_type t))) \<le> 1"
    by (cases "tx_type t") (simp_all add: printf_d_def show_nat.simps)
  have c: "length (tx_category t) \<le> 63" and n: "length (tx_note t) \<le> 127"
    using assms(1) by (simp_all add: entry_ok_def)
  from a y m d k c n show ?thesis
    by (simp add: fits_line_def fprintf_tx_def)
qed

subsection \<open>Printed values of the examples\<close>

lemma digit_char_numerals:
  "digit_char 0 = CHR ''0''" "digit_char 1 = CHR ''1''" "digit_char 2 = CHR ''2''"
  "digit_char 3 = CHR ''3''" "digit_char 4 = CHR ''4''" "digit_char 5 = CHR ''5''"
  "digit_char 6 = CHR ''6''" "digit_char 7 = CHR ''7''" "digit_char 8 = CHR ''8''"
  "digit_char 9 = CHR ''9''" "digit_char (Suc 0) = CHR ''1''"
  by code_simp+

lemma printf_d_examples:
  "printf_d 2025 = ''2025''" "printf_d 1 = ''1''" "printf_d 15 = ''15''" "printf_d 0 = ''0''"
  "printf_d 7 = ''7''" "printf_d 2 = ''2''" "printf_d 20 = ''20''"
  by (simp_all add: printf_d_def show_nat.simps digit_char_numerals)

lemma printf_2f_zero: "printf_2f 0 = ''0.00''"
  using printf_2f_cents [of 0 0] by (simp add: show_nat.simps digit_char_numerals)



subsection \<open>Saving and loading again\<close>




subsection \<open>A zero amount: refused on entry, accepted on load\<close>

text \<open>
  C4. Whenever the store has room and the date is valid, \<^verbatim>\<open>add_transaction\<close> with the
  amount 0 fails with "Amount must be positive." (\<open>InvalidAmount\<close>). The loop of
  \<^verbatim>\<open>load_from_file\<close> accepts a line whose amount field is \<^verbatim>\<open>0.00\<close>: for every record \<open>e\<close>
  with a valid date, storable texts and the amount 0, the line that spells out its
  fields with \<^verbatim>\<open>0.00\<close> as the amount is loaded as \<open>e\<close>.
\<close>

theorem zero_amount_asymmetry:
  "(length txs < MAX_TRANSACTIONS \<and> valid_date yy mm dd \<longrightarrow>
      add_transaction txs yy mm dd t c 0 n = Inl InvalidAmount)
   \<and> (entry_ok e \<and> tx_amount e = 0 \<longrightarrow>
        load_line (printf_d (tx_y e) @ ''|'' @ printf_d (tx_m e) @ ''|'' @ printf_d (tx_d e) @ ''|''
                   @ printf_d (int_of_TxType (tx_type e)) @ ''|'' @ tx_category e
                   @ ''|0.00|'' @ tx_note e @ [CHR 0x0A]) = Some e)"
proof (intro conjI impI)
  assume "length txs < MAX_TRANSACTIONS \<and> valid_date yy mm dd"
  then show "add_transaction txs yy mm dd t c 0 n = Inl InvalidAmount"
    by (simp add: add_transaction_def)
next
  assume e: "entry_ok e \<and> tx_amount e = 0"
  then have "whole_cents (tx_amount e)"
    by (simp add: whole_cents_def)
  with e have "load_line (fprintf_tx e) = Some e"
    by (simp add: load_line_fprintf_tx)
  with e show "load_line (printf_d (tx_y e) @ ''|'' @ printf_d (tx_m e) @ ''|'' @ printf_d (tx_d e) @ ''|''
                   @ printf_d (int_of_TxType (tx_type e)) @ ''|'' @ tx_category e
                   @ ''|0.00|'' @ tx_note e @ [CHR 0x0A]) = Some e"
    by (simp add: fprintf_tx_def printf_2f_zero)
qed

theorem zero_amount_asymmetry_witness:
  "length ([] :: store) < MAX_TRANSACTIONS \<and> valid_date 2025 1 15
   \<and> add_transaction [] 2025 1 15 EXPENSE ''Food'' 0 ''lunch'' = Inl InvalidAmount
   \<and> entry_ok \<lparr>tx_y = 2025, tx_m = 1, tx_d = 15, tx_type = EXPENSE, tx_category = ''Food'',
                tx_amount = 0, tx_note = ''lunch''\<rparr>
   \<and> load_line (''2025|1|15|1|Food|0.00|lunch'' @ [CHR 0x0A])
       = Some \<lparr>tx_y = 2025, tx_m = 1, tx_d = 15, tx_type = EXPENSE, tx_category = ''Food'',
                tx_amount = 0, tx_note = ''lunch''\<rparr>"
proof -
  let ?e = "\<lparr>tx_y = 2025, tx_m = 1, tx_d = 15, tx_type = EXPENSE, tx_category = ''Food'',
                tx_amount = 0, tx_note = ''lunch''\<rparr>"
  have cap: "length ([] :: store) < MAX_TRANSACTIONS"
    by (simp add: MAX_TRANSACTIONS_def)
  have date: "valid_date 2025 1 15"
    by (simp add: valid_date_def mdays_def)
  have ok: "entry_ok ?e"
    using date by (simp add: entry_ok_def)
  have line: "printf_d (tx_y ?e) @ ''|'' @ printf_d (tx_m ?e) @ ''|'' @ printf_d (tx_d ?e) @ ''|''
                   @ printf_d (int_of_TxType (tx_type ?e)) @ ''|'' @ tx_category ?e
                   @ ''|0.00|'' @ tx_note ?e @ [CHR 0x0A]
              = ''2025|1|15|1|Food|0.00|lunch'' @ [CHR 0x0A]"
    by (simp add: printf_d_examples)
  from zero_amount_asymmetry [of "[]" 2025 1 15 EXPENSE "''Food''" "''lunch''" ?e] cap date ok
  have "add_transaction [] 2025 1 15 EXPENSE ''Food'' 0 ''lunch'' = Inl InvalidAmount"
    and "load_line (printf_d (tx_y ?e) @ ''|'' @ printf_d (tx_m ?e) @ ''|'' @ printf_d (tx_d ?e) @ ''|''
                   @ printf_d (int_of_TxType (tx_type ?e)) @ ''|'' @ tx_category ?e
                   @ ''|0.00|'' @ tx_note ?e @ [CHR 0x0A]) = Some ?e"
    by simp_all
  with cap date ok show ?thesis
    unfolding line by simp
qed

subsection \<open>The kind field on load\<close>





subsection \<open>Which lines are loaded\<close>



subsection \<open>Monthly expense totals\<close>



















subsection \<open>Sorting\<close>







lemma sort_menu_mset: "sort_menu c txs txs' \<Longrightarrow> mset txs' = mset txs"
  by (auto simp: sort_menu_def qsort_result_def split: if_splits)













subsection \<open>The delimiter in category and note\<close>

lemma strncpy_replace_bar: "CHR ''|'' \<notin> set (strncpy n (replace_bar s))"
  by (auto simp: strncpy_def dest!: in_set_takeD replace_bar_chars)

lemma add_transaction_no_bar:
  assumes "no_bar_store txs" "add_transaction txs yy mm dd t c a n = Inr txs'"
  shows "no_bar_store txs'"
proof -
  from add_transaction_Inr [OF assms(2)] obtain c' n' where
    "txs' = txs @ [\<lparr>tx_y = yy, tx_m = mm, tx_d = dd, tx_type = t, tx_category = c',
                    tx_amount = a, tx_note = n'\<rparr>]"
    "c' = strncpy (STR_LEN - 1) (replace_bar (if c = [] then (if t = INCOME then ''Salary'' else ''Misc'') else c))"
    "n' = strncpy (NOTE_LEN - 1) (replace_bar n)"
    by blast
  with assms(1) show ?thesis
    using strncpy_replace_bar by (simp add: no_bar_store_def no_bar_text_def)
qed

lemma shift_left_subset:
  "\<forall>i \<in> set js. Suc i < length a \<Longrightarrow>
   set (foldl (\<lambda>a i. a[i := a ! (i + 1)]) a js) \<subseteq> set a
   \<and> length (foldl (\<lambda>a i. a[i := a ! (i + 1)]) a js) = length a"
proof (induction js arbitrary: a)
  case Nil
  then show ?case by simp
next
  case (Cons j js)
  let ?a = "a[j := a ! (j + 1)]"
  have "a ! (j + 1) \<in> set a"
    using Cons.prems by simp
  then have sub: "set ?a \<subseteq> set a"
    using set_update_subset_insert [of a j "a ! (j + 1)"] by auto
  have "\<forall>i \<in> set js. Suc i < length ?a"
    using Cons.prems by simp
  from Cons.IH [OF this] sub show ?case by auto
qed

lemma delete_by_index_subset: "set (delete_by_index idx txs) \<subseteq> set txs"
proof (cases "txs = []")
  case True
  then show ?thesis by (simp add: delete_by_index_def)
next
  case False
  have "\<forall>i \<in> set [idx ..< length txs - 1]. Suc i < length txs"
    by auto
  from shift_left_subset [OF this] False show ?thesis
    by (auto simp: delete_by_index_def dest: in_set_butlastD)
qed

lemma delete_by_index_no_bar: "no_bar_store txs \<Longrightarrow> no_bar_store (delete_by_index idx txs)"
  using delete_by_index_subset [of idx txs] by (auto simp: no_bar_store_def)

lemma sort_menu_no_bar: "no_bar_store txs \<Longrightarrow> sort_menu c txs txs' \<Longrightarrow> no_bar_store txs'"
  using sort_menu_mset [of c txs txs'] mset_eq_setD [of txs' txs] by (auto simp: no_bar_store_def)

lemma scan_set_members: "scan_set n P s = Some (tok, rest) \<Longrightarrow> \<forall>c \<in> set tok. P c"
  by (auto simp: scan_set_def Let_def split: if_splits dest: set_takeWhileD)

lemma sscanf_note_category: "s_category (sscanf_note r s) = s_category r"
  by (simp add: sscanf_note_def split: option.splits prod.splits)

lemma sscanf_amount_category: "s_category (sscanf_amount r s) = s_category r"
  by (simp add: sscanf_amount_def sscanf_note_category split: option.splits prod.splits)

lemma sscanf_category_no_bar:
  "CHR ''|'' \<notin> set (s_category r) \<Longrightarrow> CHR ''|'' \<notin> set (s_category (sscanf_category r s))"
  by (auto simp: sscanf_category_def sscanf_amount_category not_bar_def
      split: option.splits prod.splits dest!: scan_set_members)

lemma sscanf_type_no_bar:
  "CHR ''|'' \<notin> set (s_category r) \<Longrightarrow> CHR ''|'' \<notin> set (s_category (sscanf_type r s))"
  by (auto simp: sscanf_type_def split: option.splits prod.splits intro!: sscanf_category_no_bar)

lemma sscanf_d_no_bar:
  "CHR ''|'' \<notin> set (s_category r) \<Longrightarrow> CHR ''|'' \<notin> set (s_category (sscanf_d r s))"
  by (auto simp: sscanf_d_def split: option.splits prod.splits intro!: sscanf_type_no_bar)

lemma sscanf_m_no_bar:
  "CHR ''|'' \<notin> set (s_category r) \<Longrightarrow> CHR ''|'' \<notin> set (s_category (sscanf_m r s))"
  by (auto simp: sscanf_m_def split: option.splits prod.splits intro!: sscanf_d_no_bar)

lemma sscanf_line_no_bar: "CHR ''|'' \<notin> set (s_category (sscanf_line s))"
  by (auto simp: sscanf_line_def scanned0_def split: option.splits prod.splits
      intro!: sscanf_m_no_bar)

lemma load_line_category: "load_line line = Some t \<Longrightarrow> CHR ''|'' \<notin> set (tx_category t)"
  using sscanf_line_no_bar [of "c_str line"]
  by (auto simp: load_line_def Let_def strncpy_def split: if_splits dest: in_set_takeD)

lemma map_filter_members: "t \<in> set (List.map_filter g ls) \<Longrightarrow> \<exists>l. g l = Some t"
  by (auto simp: List.map_filter_def)

lemma load_from_file_category:
  "t \<in> set (snd (load_from_file (Some f) txs)) \<Longrightarrow> CHR ''|'' \<notin> set (tx_category t)"
proof -
  assume "t \<in> set (snd (load_from_file (Some f) txs))"
  then have "t \<in> set (List.map_filter load_line (fgets_lines f))"
    by (auto simp: load_from_file_def load_loop_accepted dest: in_set_takeD)
  then obtain l where "load_line l = Some t"
    using map_filter_members by fastforce
  then show ?thesis by (rule load_line_category)
qed

text \<open>
  C2, as stated, fails. \<^verbatim>\<open>load_from_file\<close> substitutes nothing: it reads the note with
  \<^verbatim>\<open>%127[^\n]\<close>, which takes the rest of the line as it is. Loading the line
  \<^verbatim>\<open>2025|1|15|1|Food|50.00|a|b\<close> into the empty store leaves a transaction whose note is
  \<^verbatim>\<open>a|b\<close>.
\<close>

theorem delimiter_invariant_counterexample:
  "no_bar_store []
   \<and> load_from_file (Some (''2025|1|15|1|Food|50.00|a|b'' @ [CHR 0x0A])) []
       = (1, [\<lparr>tx_y = 2025, tx_m = 1, tx_d = 15, tx_type = EXPENSE, tx_category = ''Food'',
        tx_amount = 50, tx_note = ''a|b''\<rparr>])
   \<and> \<not> no_bar_store
       [\<lparr>tx_y = 2025, tx_m = 1, tx_d = 15, tx_type = EXPENSE, tx_category = ''Food'',
        tx_amount = 50, tx_note = ''a|b''\<rparr>]"
proof -
  have "load_from_file (Some (''2025|1|15|1|Food|50.00|a|b'' @ [CHR 0x0A])) []
       = (1, [\<lparr>tx_y = 2025, tx_m = 1, tx_d = 15, tx_type = EXPENSE, tx_category = ''Food'',
        tx_amount = 50, tx_note = ''a|b''\<rparr>])"
    by code_simp
  then show ?thesis
    by (simp add: no_bar_store_def no_bar_text_def)
qed

text \<open>
  C2, amended. \<^verbatim>\<open>add_transaction\<close> replaces every delimiter in category and note by a
  slash before it stores them, so it preserves the predicate "no stored category or note
  contains the delimiter"; so do \<^verbatim>\<open>delete_by_index\<close>, \<^verbatim>\<open>sort_menu\<close> and a load that cannot
  open its file, which store no new text. A load from a file never stores a category
  that contains the delimiter, since the category is read with \<^verbatim>\<open>%63[^|]\<close>; the note it
  stores is the rest of the line and may contain it.
\<close>

theorem delimiter_invariant:
  "(no_bar_store txs \<and> add_transaction txs yy mm dd t c a n = Inr txs' \<longrightarrow> no_bar_store txs')
   \<and> (no_bar_store txs \<and> idx < length txs \<longrightarrow> no_bar_store (delete_by_index idx txs))
   \<and> (no_bar_store txs \<and> sort_menu ch txs txs'' \<longrightarrow> no_bar_store txs'')
   \<and> (no_bar_store txs \<longrightarrow> no_bar_store (snd (load_from_file None txs)))
   \<and> (\<forall>t \<in> set (snd (load_from_file (Some f) txs)). CHR ''|'' \<notin> set (tx_category t))"
  using add_transaction_no_bar [of txs yy mm dd t c a n txs']
    delete_by_index_no_bar [of txs idx] sort_menu_no_bar [of txs ch txs'']
    load_from_file_category [of _ f txs]
  by (auto simp: load_from_file_def)

theorem delimiter_invariant_witness:
  "no_bar_store []
   \<and> add_transaction [] 2025 1 15 EXPENSE ''Fo|od'' 50 ''a|b''
       = Inr [\<lparr>tx_y = 2025, tx_m = 1, tx_d = 15, tx_type = EXPENSE, tx_category = ''Fo/od'',
        tx_amount = 50, tx_note = ''a/b''\<rparr>]
   \<and> no_bar_store
       [\<lparr>tx_y = 2025, tx_m = 1, tx_d = 15, tx_type = EXPENSE, tx_category = ''Fo/od'',
        tx_amount = 50, tx_note = ''a/b''\<rparr>]
   \<and> (0 :: nat) < length
       [\<lparr>tx_y = 2025, tx_m = 1, tx_d = 15, tx_type = EXPENSE, tx_category = ''Fo/od'',
        tx_amount = 50, tx_note = ''a/b''\<rparr>]
   \<and> no_bar_store (delete_by_index 0
       [\<lparr>tx_y = 2025, tx_m = 1, tx_d = 15, tx_type = EXPENSE, tx_category = ''Fo/od'',
        tx_amount = 50, tx_note = ''a/b''\<rparr>])
   \<and> sort_menu 1 [] []
   \<and> no_bar_store (snd (load_from_file None []))
   \<and> CHR ''|'' \<notin> set (tx_category
       \<lparr>tx_y = 2025, tx_m = 1, tx_d = 15, tx_type = EXPENSE, tx_category = ''Food'',
        tx_amount = 50, tx_note = ''a|b''\<rparr>)"
proof -
  let ?e = "\<lparr>tx_y = 2025, tx_m = 1, tx_d = 15, tx_type = EXPENSE, tx_category = ''Fo/od'',
        tx_amount = 50, tx_note = ''a/b''\<rparr>"
  let ?l = "\<lparr>tx_y = 2025, tx_m = 1, tx_d = 15, tx_type = EXPENSE, tx_category = ''Food'',
        tx_amount = 50, tx_note = ''a|b''\<rparr>"
  note inst = delimiter_invariant [of "[]" 2025 1 15 EXPENSE "''Fo|od''" 50 "''a|b''" "[?e]" 0
      1 "[]" "''2025|1|15|1|Food|50.00|a|b'' @ [CHR 0x0A]"]
  note inst2 = delimiter_invariant [of "[?e]" 2025 1 15 EXPENSE "''Fo|od''" 50 "''a|b''" "[?e]" 0
      1 "[]" "''2025|1|15|1|Food|50.00|a|b'' @ [CHR 0x0A]"]
  have empty: "no_bar_store []"
    by (simp add: no_bar_store_def)
  have add: "add_transaction [] 2025 1 15 EXPENSE ''Fo|od'' 50 ''a|b'' = Inr [?e]"
    by (simp add: add_transaction_def valid_date_def mdays_def MAX_TRANSACTIONS_def
        STR_LEN_def NOTE_LEN_def strncpy_def replace_bar_def)
  from inst empty add have one: "no_bar_store [?e]"
    by blast
  have len: "(0 :: nat) < length [?e]"
    by simp
  from inst2 one len have del: "no_bar_store (delete_by_index 0 [?e])"
    by blast
  have srt: "sort_menu 1 [] []"
    by (simp add: sort_menu_def)
  from inst empty have none: "no_bar_store (snd (load_from_file None []))"
    by blast
  have "load_from_file (Some (''2025|1|15|1|Food|50.00|a|b'' @ [CHR 0x0A])) [] = (1, [?l])"
    by code_simp
  with inst have cat: "CHR ''|'' \<notin> set (tx_category ?l)"
    by simp
  from empty add one len del srt none cat show ?thesis
    by blast
qed

end
